theory Spec2Isabelle
  imports Complex_Main "HOL-Library.Multiset"
begin

section \<open>Go values used by the scanner core\<close>

subsection \<open>float64\<close>

text \<open>
  A float64 is either a number, one of the two infinities, or not-a-number. Finite values
  are kept as exact reals: rounding, overflow to infinity and the sign of zero are not
  modelled (a zero is always the positive zero, which is the only zero the accumulators
  of \<open>AssessRisk\<close> can hold, since they start at \<open>+0\<close>).
\<close>

datatype float64 = Fin real | PInf | NInf | NaN

fun fadd :: "float64 \<Rightarrow> float64 \<Rightarrow> float64" where
  "fadd NaN _ = NaN"
| "fadd _ NaN = NaN"
| "fadd PInf NInf = NaN"
| "fadd NInf PInf = NaN"
| "fadd PInf _ = PInf"
| "fadd _ PInf = PInf"
| "fadd NInf _ = NInf"
| "fadd _ NInf = NInf"
| "fadd (Fin x) (Fin y) = Fin (x + y)"

definition inf_of_sign :: "bool \<Rightarrow> float64" where
  "inf_of_sign positive = (if positive then PInf else NInf)"

fun fmul :: "float64 \<Rightarrow> float64 \<Rightarrow> float64" where
  "fmul NaN _ = NaN"
| "fmul _ NaN = NaN"
| "fmul (Fin x) (Fin y) = Fin (x * y)"
| "fmul (Fin x) PInf = (if x = 0 then NaN else inf_of_sign (0 < x))"
| "fmul (Fin x) NInf = (if x = 0 then NaN else inf_of_sign (x < 0))"
| "fmul PInf (Fin y) = (if y = 0 then NaN else inf_of_sign (0 < y))"
| "fmul NInf (Fin y) = (if y = 0 then NaN else inf_of_sign (y < 0))"
| "fmul PInf PInf = PInf"
| "fmul PInf NInf = NInf"
| "fmul NInf PInf = NInf"
| "fmul NInf NInf = PInf"

fun fdiv :: "float64 \<Rightarrow> float64 \<Rightarrow> float64" where
  "fdiv NaN _ = NaN"
| "fdiv _ NaN = NaN"
| "fdiv (Fin x) (Fin y) =
     (if y \<noteq> 0 then Fin (x / y)
      else if x = 0 then NaN
      else inf_of_sign (0 < x))"
| "fdiv (Fin x) PInf = Fin 0"
| "fdiv (Fin x) NInf = Fin 0"
| "fdiv PInf (Fin y) = inf_of_sign (0 \<le> y)"
| "fdiv NInf (Fin y) = inf_of_sign (y < 0)"
| "fdiv PInf PInf = NaN"
| "fdiv PInf NInf = NaN"
| "fdiv NInf PInf = NaN"
| "fdiv NInf NInf = NaN"

text \<open>The comparisons \<open>>\<close> and \<open>>=\<close>: every comparison with NaN is false.\<close>

fun fgt :: "float64 \<Rightarrow> float64 \<Rightarrow> bool" where
  "fgt NaN _ = False"
| "fgt _ NaN = False"
| "fgt (Fin x) (Fin y) = (y < x)"
| "fgt PInf PInf = False"
| "fgt PInf _ = True"
| "fgt _ PInf = False"
| "fgt NInf _ = False"
| "fgt _ NInf = True"

fun fge :: "float64 \<Rightarrow> float64 \<Rightarrow> bool" where
  "fge NaN _ = False"
| "fge _ NaN = False"
| "fge (Fin x) (Fin y) = (y \<le> x)"
| "fge PInf _ = True"
| "fge _ NInf = True"
| "fge NInf _ = False"
| "fge _ PInf = False"

definition flt :: "float64 \<Rightarrow> float64 \<Rightarrow> bool" where
  "flt a b = fgt b a"

text \<open>
  \<open>math.Min\<close>: negative infinity wins over everything (NaN included), then NaN, then the
  smaller operand.
\<close>

definition math_Min :: "float64 \<Rightarrow> float64 \<Rightarrow> float64" where
  "math_Min x y =
     (if x = NInf \<or> y = NInf then NInf
      else if x = NaN \<or> y = NaN then NaN
      else if flt x y then x else y)"

text \<open>\<open>float64(n)\<close> for an \<open>int\<close> count.\<close>

definition float64_of_int :: "int \<Rightarrow> float64" where
  "float64_of_int n = Fin (of_int n)"

subsection \<open>Slices\<close>

text \<open>
  A Go slice is either \<open>nil\<close> or holds a (possibly empty) sequence; \<open>append\<close> of no
  elements to \<open>nil\<close> stays \<open>nil\<close>.
\<close>

datatype 'a slice = NilSlice | Slice "'a list"

fun elems :: "'a slice \<Rightarrow> 'a list" where
  "elems NilSlice = []"
| "elems (Slice xs) = xs"

fun append_slice :: "'a slice \<Rightarrow> 'a list \<Rightarrow> 'a slice" where
  "append_slice NilSlice xs = (if xs = [] then NilSlice else Slice xs)"
| "append_slice (Slice ys) xs = Slice (ys @ xs)"

definition len :: "'a slice \<Rightarrow> int" where
  "len s = int (length (elems s))"

section \<open>Data model (package scanner)\<close>

type_synonym MechanismType = string
type_synonym RiskLevel = string
type_synonym time = int

definition RiskInfo :: RiskLevel where "RiskInfo = ''Info''"
definition RiskLow :: RiskLevel where "RiskLow = ''Low''"
definition RiskMedium :: RiskLevel where "RiskMedium = ''Medium''"
definition RiskHigh :: RiskLevel where "RiskHigh = ''High''"
definition RiskCritical :: RiskLevel where "RiskCritical = ''Critical''"

record HeuristicResult =
  Name :: string
  Triggered :: bool
  Score :: float64
  Confidence :: float64
  Details :: string

record RiskAssessment =
  Level :: RiskLevel
  RScore :: float64
  RConfidence :: float64
  Reasons :: "string slice"
  Heuristics :: "HeuristicResult slice"

text \<open>
  The zero value of a RiskAssessment, which a freshly discovered item carries until the
  risk engine has run.
\<close>

definition zero_RiskAssessment :: RiskAssessment where
  "zero_RiskAssessment =
     \<lparr>Level = '''', RScore = Fin 0, RConfidence = Fin 0, Reasons = NilSlice,
      Heuristics = NilSlice\<rparr>"

text \<open>
  \<open>RawData\<close> is a \<open>map[string]interface{}\<close>; its values are never inspected by the
  orchestrator or the engine and are kept as text.
\<close>

record PersistenceItem =
  ID :: string
  Mechanism :: MechanismType
  Label :: string
  Path :: string
  Program :: string
  ProgramArgs :: "string slice"
  User :: string
  RunAtLoad :: bool
  KeepAlive :: bool
  Disabled :: bool
  CreatedAt :: time
  ModifiedAt :: time
  FileMode :: string
  Risk :: RiskAssessment
  RawData :: "(string \<times> string) list"
  Errors :: "string slice"

record ScanError =
  EMechanism :: MechanismType
  EPath :: string
  Error :: string
  Timestamp :: time

record ScanResult =
  StartTime :: time
  EndTime :: time
  Duration :: int
  Items :: "PersistenceItem slice"
  TotalItems :: int
  RiskSummary :: "RiskLevel \<rightharpoonup> int"
  SErrors :: "ScanError slice"
  PermissionIssues :: "string slice"

section \<open>The risk engine (package risk)\<close>

subsection \<open>scoreToRiskLevel\<close>

definition scoreToRiskLevel :: "float64 \<Rightarrow> RiskLevel" where
  "scoreToRiskLevel score =
     (if fge score (Fin 0.8) then RiskCritical
      else if fge score (Fin 0.6) then RiskHigh
      else if fge score (Fin 0.4) then RiskMedium
      else if fge score (Fin 0.2) then RiskLow
      else RiskInfo)"

text \<open>
  The order of the tiers, as the table formatter's \<open>riskLevelToInt\<close> ranks them
  (any string that is not one of the four upper tiers ranks lowest).
\<close>

definition riskLevelToInt :: "RiskLevel \<Rightarrow> int" where
  "riskLevelToInt level =
     (if level = RiskCritical then 5
      else if level = RiskHigh then 4
      else if level = RiskMedium then 3
      else if level = RiskLow then 2
      else 1)"

subsection \<open>Heuristics and the engine\<close>

text \<open>
  A heuristic receives a pointer to the item and may do anything a method can: read state
  outside the item (the file system, a signature tool, its own fields) and write through
  the pointer. \<open>Analyze\<close> therefore takes the outside world and the item and returns the
  verdict together with the item and the world as it leaves them.
\<close>

record 'w Heuristic =
  HName :: string
  Analyze :: "'w \<Rightarrow> PersistenceItem \<Rightarrow> HeuristicResult \<times> PersistenceItem \<times> 'w"

record 'w Engine =
  heuristics :: "'w Heuristic list"

definition NewEngine :: "'w Heuristic list \<Rightarrow> 'w Engine" where
  "NewEngine hs = \<lparr>heuristics = hs\<rparr>"

definition AddHeuristic :: "'w Engine \<Rightarrow> 'w Heuristic \<Rightarrow> 'w Engine" where
  "AddHeuristic e h = e\<lparr>heuristics := heuristics e @ [h]\<rparr>"

definition GetHeuristics :: "'w Engine \<Rightarrow> 'w Heuristic list" where
  "GetHeuristics e = heuristics e"

text \<open>The local variables of \<open>AssessRisk\<close> while its loop runs.\<close>

record 'w assess_state =
  assessment :: RiskAssessment
  totalScore :: float64
  totalConfidence :: float64
  triggeredCount :: int
  item :: PersistenceItem
  world :: 'w

definition assess_step :: "'w Heuristic \<Rightarrow> 'w assess_state \<Rightarrow> 'w assess_state" where
  "assess_step h st =
     (case Analyze h (world st) (item st) of (result, item', world') \<Rightarrow>
        let st1 = st\<lparr>item := item', world := world',
                      assessment := (assessment st)
                        \<lparr>Heuristics := append_slice (Heuristics (assessment st)) [result]\<rparr>\<rparr>
        in if Triggered result
           then st1\<lparr>triggeredCount := triggeredCount st1 + 1,
                    totalScore := fadd (totalScore st1) (fmul (Score result) (Confidence result)),
                    totalConfidence := fadd (totalConfidence st1) (Confidence result),
                    assessment := (assessment st1)
                      \<lparr>Reasons := append_slice (Reasons (assessment st1)) [Details result]\<rparr>\<rparr>
           else st1)"

fun assess_loop :: "'w Heuristic list \<Rightarrow> 'w assess_state \<Rightarrow> 'w assess_state" where
  "assess_loop [] st = st"
| "assess_loop (h # hs) st = assess_loop hs (assess_step h st)"

text \<open>
  \<open>sort.Slice\<close> belongs to the Go standard library, not to this repository, so the
  engine takes it as a parameter: \<open>srt lessf xs\<close> is the slice content after
  \<open>sort.Slice(xs, less)\<close>, with \<open>lessf\<close> the comparison of the elements at the two
  indices that \<open>less\<close> is given.
\<close>

type_synonym 'a sort_Slice = "('a \<Rightarrow> 'a \<Rightarrow> bool) \<Rightarrow> 'a list \<Rightarrow> 'a list"

fun sort_slice :: "'a sort_Slice \<Rightarrow> 'a slice \<Rightarrow> ('a \<Rightarrow> 'a \<Rightarrow> bool) \<Rightarrow> 'a slice" where
  "sort_slice srt NilSlice lessf = NilSlice"
| "sort_slice srt (Slice xs) lessf = Slice (srt lessf xs)"

definition score_less :: "HeuristicResult \<Rightarrow> HeuristicResult \<Rightarrow> bool" where
  "score_less a b = fgt (Score a) (Score b)"

definition AssessRisk ::
  "HeuristicResult sort_Slice \<Rightarrow> 'w Engine \<Rightarrow> PersistenceItem \<Rightarrow> 'w
     \<Rightarrow> RiskAssessment \<times> PersistenceItem \<times> 'w" where
  "AssessRisk srt e it w =
     (let st = assess_loop (heuristics e)
                 \<lparr>assessment = \<lparr>Level = RiskInfo, RScore = Fin 0, RConfidence = Fin 1,
                                 Reasons = Slice [], Heuristics = Slice []\<rparr>,
                  totalScore = Fin 0, totalConfidence = Fin 0, triggeredCount = 0,
                  item = it, world = w\<rparr>;
          a1 = (if triggeredCount st > 0
                then (assessment st)
                       \<lparr>RScore := fdiv (totalScore st) (totalConfidence st),
                        RConfidence := math_Min (fdiv (totalConfidence st)
                                                   (float64_of_int (triggeredCount st))) (Fin 1)\<rparr>
                else assessment st);
          a2 = a1\<lparr>Level := scoreToRiskLevel (RScore a1)\<rparr>;
          a3 = a2\<lparr>Heuristics := sort_slice srt (Heuristics a2) score_less\<rparr>
      in (a3, item st, world st))"

subsection \<open>What the loop computes, read off the verdicts\<close>

text \<open>
  The verdicts in the order the heuristics ran, each heuristic seeing the item and the
  world as its predecessors left them.
\<close>

fun run_heuristics ::
  "'w Heuristic list \<Rightarrow> PersistenceItem \<Rightarrow> 'w \<Rightarrow> HeuristicResult list \<times> PersistenceItem \<times> 'w" where
  "run_heuristics [] it w = ([], it, w)"
| "run_heuristics (h # hs) it w =
     (case Analyze h w it of (v, it', w') \<Rightarrow>
        (case run_heuristics hs it' w' of (vs, it'', w'') \<Rightarrow> (v # vs, it'', w'')))"

definition verdicts :: "'w Heuristic list \<Rightarrow> PersistenceItem \<Rightarrow> 'w \<Rightarrow> HeuristicResult list" where
  "verdicts hs it w = fst (run_heuristics hs it w)"

definition triggered :: "HeuristicResult list \<Rightarrow> HeuristicResult list" where
  "triggered vs = filter Triggered vs"

text \<open>A float64 sum, accumulated from \<open>0\<close> from left to right.\<close>

definition fsum :: "float64 list \<Rightarrow> float64" where
  "fsum xs = foldl fadd (Fin 0) xs"

definition weighted_score_sum :: "HeuristicResult list \<Rightarrow> float64" where
  "weighted_score_sum vs = fsum (map (\<lambda>v. fmul (Score v) (Confidence v)) (triggered vs))"

definition confidence_sum :: "HeuristicResult list \<Rightarrow> float64" where
  "confidence_sum vs = fsum (map Confidence (triggered vs))"

text \<open>Finite float64 values and the real number they stand for.\<close>

fun is_Fin :: "float64 \<Rightarrow> bool" where
  "is_Fin (Fin x) = True"
| "is_Fin _ = False"

fun real_of :: "float64 \<Rightarrow> real" where
  "real_of (Fin x) = x"
| "real_of _ = 0"

text \<open>
  A pure heuristic: its verdict depends on the item alone, and it leaves the item and the
  world as it found them.
\<close>

definition pure_heuristic :: "'w Heuristic \<Rightarrow> bool" where
  "pure_heuristic h \<longleftrightarrow> (\<forall>w w' it. Analyze h w it = (fst (Analyze h w' it), it, w))"

subsection \<open>What \<open>sort.Slice\<close> promises\<close>



text \<open>
  One sort within that contract: an insertion sort that works from the back of the slice
  and puts each element behind the elements it ties with.
\<close>

fun insert_after :: "('a \<Rightarrow> 'a \<Rightarrow> bool) \<Rightarrow> 'a \<Rightarrow> 'a list \<Rightarrow> 'a list" where
  "insert_after lessf x [] = [x]"
| "insert_after lessf x (y # ys) =
     (if lessf x y then x # y # ys else y # insert_after lessf x ys)"

definition tie_reversing_sort :: "'a sort_Slice" where
  "tie_reversing_sort lessf xs = foldr (insert_after lessf) xs []"


subsection \<open>Example inputs\<close>

definition verdict :: "string \<Rightarrow> bool \<Rightarrow> real \<Rightarrow> real \<Rightarrow> string \<Rightarrow> HeuristicResult" where
  "verdict n t s c d = \<lparr>Name = n, Triggered = t, Score = Fin s, Confidence = Fin c, Details = d\<rparr>"

text \<open>A heuristic that answers with a fixed verdict, whatever the item.\<close>

definition const_heuristic :: "HeuristicResult \<Rightarrow> 'w Heuristic" where
  "const_heuristic v = \<lparr>HName = Name v, Analyze = (\<lambda>w it. (v, it, w))\<rparr>"

definition example_item :: PersistenceItem where
  "example_item =
     \<lparr>ID = ''com.example.agent.plist'', Mechanism = ''LaunchAgent'', Label = ''com.example.agent'',
      Path = ''/Library/LaunchAgents/com.example.agent.plist'', Program = ''/tmp/agent'',
      ProgramArgs = NilSlice, User = [], RunAtLoad = True, KeepAlive = False, Disabled = False,
      CreatedAt = 0, ModifiedAt = 0, FileMode = ''-rw-r--r--'', Risk = zero_RiskAssessment,
      RawData = [], Errors = NilSlice\<rparr>"

definition verdict_A :: HeuristicResult where
  "verdict_A = verdict ''A'' True 0.9 0.5 ''reason A''"

definition verdict_B :: HeuristicResult where
  "verdict_B = verdict ''B'' True 0.3 1 ''reason B''"

definition verdict_C :: HeuristicResult where
  "verdict_C = verdict ''C'' False 0.9 1 []"

definition verdict_Z :: HeuristicResult where
  "verdict_Z = verdict ''Z'' True 0.7 0 ''reason Z''"

definition example_engine :: "'w Engine" where
  "example_engine =
     NewEngine [const_heuristic verdict_A, const_heuristic verdict_B, const_heuristic verdict_C]"



definition zero_engine :: "'w Engine" where
  "zero_engine = NewEngine [const_heuristic verdict_Z, const_heuristic verdict_C]"

section \<open>The orchestrator (package scanner)\<close>

text \<open>A non-nil \<open>error\<close> value, with the text its \<open>Error()\<close> method returns; \<open>nil\<close> is \<open>None\<close>.\<close>

datatype go_error = GoError string

fun Error_text :: "go_error \<Rightarrow> string" where
  "Error_text (GoError msg) = msg"

text \<open>
  A probe: \<open>Type()\<close> and the pair that \<open>Scan()\<close> returns on the system being scanned.
\<close>

record Scanner =
  Type :: MechanismType
  Scan :: "PersistenceItem slice \<times> go_error option"

record Orchestrator =
  scanners :: "Scanner list"
  parallel :: bool

definition NewOrchestrator :: "Scanner list \<Rightarrow> bool \<Rightarrow> Orchestrator" where
  "NewOrchestrator ss p = \<lparr>scanners = ss, parallel = p\<rparr>"

definition AddScanner :: "Orchestrator \<Rightarrow> Scanner \<Rightarrow> Orchestrator" where
  "AddScanner orch s = orch\<lparr>scanners := scanners orch @ [s]\<rparr>"

definition GetScanners :: "Orchestrator \<Rightarrow> Scanner list" where
  "GetScanners orch = scanners orch"

text \<open>
  The \<open>context.Context\<close> argument, reduced to what a callee could ask it: the error
  \<open>ctx.Err()\<close> reports, non-nil once the context is cancelled.
\<close>

record Context =
  ctx_err :: "go_error option"

text \<open>
  What the run takes from its environment: the clock (\<open>now k\<close> is what the \<open>k\<close>-th call of
  \<open>time.Now()\<close> returns, in nanoseconds) and, for the parallel mode, the scheduler's choices
  of which waiting goroutine gets the mutex next.
\<close>

record runtime =
  now :: "nat \<Rightarrow> time"
  sched :: "nat list"

text \<open>The variables \<open>allItems\<close> and \<open>allErrors\<close>, and the number of clock readings so far.\<close>

record scan_state =
  allItems :: "PersistenceItem slice"
  allErrors :: "ScanError slice"
  clock :: nat

text \<open>
  The statements both modes run on a probe's outcome (in parallel mode, under the mutex).
\<close>

definition record_outcome :: "(nat \<Rightarrow> time) \<Rightarrow> Scanner \<Rightarrow> scan_state \<Rightarrow> scan_state" where
  "record_outcome nw s st =
     (case Scan s of
        (items, Some err) \<Rightarrow>
          st\<lparr>allErrors := append_slice (allErrors st)
                 [\<lparr>EMechanism = Type s, EPath = [], Error = Error_text err,
                   Timestamp = nw (clock st)\<rparr>],
             clock := clock st + 1\<rparr>
      | (items, None) \<Rightarrow> st\<lparr>allItems := append_slice (allItems st) (elems items)\<rparr>)"

fun scan_sequential :: "(nat \<Rightarrow> time) \<Rightarrow> Scanner list \<Rightarrow> scan_state \<Rightarrow> scan_state" where
  "scan_sequential nw [] st = st"
| "scan_sequential nw (s # ss) st = scan_sequential nw ss (record_outcome nw s st)"

text \<open>
  In parallel mode one goroutine per probe calls \<open>Scan\<close> and then waits for the mutex; the
  critical sections run one at a time, in the order the scheduler hands out the mutex.
  \<open>goroutine_order\<close> turns the scheduler's choices into that order: each choice picks one
  of the goroutines still waiting (modulo their number); when the choices run out the
  rest go in spawn order. Every list of choices is a schedule, and every order of the
  probes is the outcome of one.
\<close>

fun goroutine_order :: "nat list \<Rightarrow> 'a list \<Rightarrow> 'a list" where
  "goroutine_order ks [] = []"
| "goroutine_order [] (p # ps) = p # ps"
| "goroutine_order (k # ks) (p # ps) =
     (let i = k mod length (p # ps)
      in (p # ps) ! i # goroutine_order ks (take i (p # ps) @ drop (Suc i) (p # ps)))"

definition scan_parallel ::
  "(nat \<Rightarrow> time) \<Rightarrow> nat list \<Rightarrow> Scanner list \<Rightarrow> scan_state \<Rightarrow> scan_state" where
  "scan_parallel nw ks ss st = scan_sequential nw (goroutine_order ks ss) st"

text \<open>The loop that fills \<open>RiskSummary\<close>: \<open>result.RiskSummary[item.Risk.Level]++\<close>.\<close>

fun tally :: "PersistenceItem list \<Rightarrow> (RiskLevel \<rightharpoonup> int) \<Rightarrow> (RiskLevel \<rightharpoonup> int)" where
  "tally [] m = m"
| "tally (it # its) m =
     tally its (m(Level (Risk it) \<mapsto> (case m (Level (Risk it)) of None \<Rightarrow> 0 | Some c \<Rightarrow> c) + 1))"

text \<open>\<open>Time.Sub\<close>: the difference, saturated to the range of a \<open>Duration\<close> (an int64).\<close>

definition time_Sub :: "time \<Rightarrow> time \<Rightarrow> int" where
  "time_Sub t u = max (- (2 ^ 63)) (min (2 ^ 63 - 1) (t - u))"

definition RunScan :: "Orchestrator \<Rightarrow> Context \<Rightarrow> runtime \<Rightarrow> ScanResult \<times> go_error option" where
  "RunScan orch ctx rt =
     (let start = now rt 0;
          st0 = \<lparr>allItems = NilSlice, allErrors = NilSlice, clock = 1\<rparr>;
          st = (if parallel orch
                then scan_parallel (now rt) (sched rt) (scanners orch) st0
                else scan_sequential (now rt) (scanners orch) st0);
          summary = tally (elems (allItems st)) Map.empty;
          endt = now rt (clock st)
      in (\<lparr>StartTime = start, EndTime = endt, Duration = time_Sub endt start,
           Items = allItems st, TotalItems = len (allItems st), RiskSummary = summary,
           SErrors = allErrors st, PermissionIssues = NilSlice\<rparr>,
          None))"

subsection \<open>What a run records, read off the probes\<close>

text \<open>The entries a probe contributes: those it returned, unless it failed.\<close>

definition entries_of :: "Scanner \<Rightarrow> PersistenceItem list" where
  "entries_of s = (case Scan s of (items, None) \<Rightarrow> elems items | (items, Some err) \<Rightarrow> [])"

text \<open>
  A ScanError without its timestamp, and the one a failed probe gives rise to.
\<close>

definition untimed :: "ScanError \<Rightarrow> MechanismType \<times> string \<times> string" where
  "untimed e = (EMechanism e, EPath e, Error e)"

definition failure_of :: "Scanner \<Rightarrow> (MechanismType \<times> string \<times> string) list" where
  "failure_of s =
     (case Scan s of (items, None) \<Rightarrow> [] | (items, Some err) \<Rightarrow> [(Type s, [], Error_text err)])"

text \<open>The order in which the probes' outcomes are recorded.\<close>

definition recording_order :: "Orchestrator \<Rightarrow> runtime \<Rightarrow> Scanner list" where
  "recording_order orch rt =
     (if parallel orch then goroutine_order (sched rt) (scanners orch) else scanners orch)"

subsection \<open>Example probes\<close>

definition failing_probe :: "MechanismType \<Rightarrow> string \<Rightarrow> Scanner" where
  "failing_probe m msg = \<lparr>Type = m, Scan = (NilSlice, Some (GoError msg))\<rparr>"

definition working_probe :: "MechanismType \<Rightarrow> PersistenceItem list \<Rightarrow> Scanner" where
  "working_probe m its = \<lparr>Type = m, Scan = (Slice its, None)\<rparr>"

definition probe_P :: Scanner where
  "probe_P = failing_probe ''LaunchDaemon'' ''permission denied''"

definition probe_P2 :: Scanner where
  "probe_P2 = failing_probe ''CronJob'' ''crontab: not found''"

definition probe_Q :: Scanner where
  "probe_Q = working_probe ''LaunchAgent'' [example_item]"

definition probe_R :: Scanner where
  "probe_R = working_probe ''LoginItem'' []"

definition background :: Context where
  "background = \<lparr>ctx_err = None\<rparr>"

definition cancelled :: Context where
  "cancelled = \<lparr>ctx_err = Some (GoError ''context canceled'')\<rparr>"

text \<open>A clock that advances by one at every reading, and a scheduler's choices.\<close>

definition ticking :: "nat list \<Rightarrow> runtime" where
  "ticking ks = \<lparr>now = (\<lambda>k. int k), sched = ks\<rparr>"

section \<open>Properties of the tier classification\<close>

lemma RiskLevel_distinct:
  "RiskInfo \<noteq> RiskLow" "RiskInfo \<noteq> RiskMedium" "RiskInfo \<noteq> RiskHigh" "RiskInfo \<noteq> RiskCritical"
  "RiskLow \<noteq> RiskMedium" "RiskLow \<noteq> RiskHigh" "RiskLow \<noteq> RiskCritical"
  "RiskMedium \<noteq> RiskHigh" "RiskMedium \<noteq> RiskCritical" "RiskHigh \<noteq> RiskCritical"
  by (simp_all add: RiskInfo_def RiskLow_def RiskMedium_def RiskHigh_def RiskCritical_def)

lemma fge_Fin_mono: "flt s1 s2 \<Longrightarrow> fge s1 (Fin c) \<Longrightarrow> fge s2 (Fin c)"
  by (cases s1; cases s2) (auto simp: flt_def)

lemma riskLevelToInt_tiers:
  "riskLevelToInt RiskCritical = 5" "riskLevelToInt RiskHigh = 4"
  "riskLevelToInt RiskMedium = 3" "riskLevelToInt RiskLow = 2" "riskLevelToInt RiskInfo = 1"
  using RiskLevel_distinct by (auto simp: riskLevelToInt_def)

text \<open>
  C4. The classification is the threshold function with closed-open bands from the top
  (at least 0.8 Critical, at least 0.6 High, at least 0.4 Medium, at least 0.2 Low,
  anything else Info, each boundary in the higher tier), and it is monotone: a smaller
  score never gets a higher tier, in the order Info, Low, Medium, High, Critical.
\<close>

theorem scoreToRiskLevel_thresholds_monotone:
  "(scoreToRiskLevel s = RiskCritical \<longleftrightarrow> fge s (Fin 0.8)) \<and>
   (scoreToRiskLevel s = RiskHigh \<longleftrightarrow> fge s (Fin 0.6) \<and> \<not> fge s (Fin 0.8)) \<and>
   (scoreToRiskLevel s = RiskMedium \<longleftrightarrow> fge s (Fin 0.4) \<and> \<not> fge s (Fin 0.6)) \<and>
   (scoreToRiskLevel s = RiskLow \<longleftrightarrow> fge s (Fin 0.2) \<and> \<not> fge s (Fin 0.4)) \<and>
   (scoreToRiskLevel s = RiskInfo \<longleftrightarrow> \<not> fge s (Fin 0.2)) \<and>
   (\<forall>s1 s2. flt s1 s2 \<longrightarrow>
      riskLevelToInt (scoreToRiskLevel s1) \<le> riskLevelToInt (scoreToRiskLevel s2))"
proof -
  have down: "fge x (Fin 0.8) \<Longrightarrow> fge x (Fin 0.6)" "fge x (Fin 0.6) \<Longrightarrow> fge x (Fin 0.4)"
    "fge x (Fin 0.4) \<Longrightarrow> fge x (Fin 0.2)" for x
    by (cases x; simp)+
  have bands: "(scoreToRiskLevel s = RiskCritical \<longleftrightarrow> fge s (Fin 0.8)) \<and>
   (scoreToRiskLevel s = RiskHigh \<longleftrightarrow> fge s (Fin 0.6) \<and> \<not> fge s (Fin 0.8)) \<and>
   (scoreToRiskLevel s = RiskMedium \<longleftrightarrow> fge s (Fin 0.4) \<and> \<not> fge s (Fin 0.6)) \<and>
   (scoreToRiskLevel s = RiskLow \<longleftrightarrow> fge s (Fin 0.2) \<and> \<not> fge s (Fin 0.4)) \<and>
   (scoreToRiskLevel s = RiskInfo \<longleftrightarrow> \<not> fge s (Fin 0.2))"
    using RiskLevel_distinct down [of s] by (auto simp: scoreToRiskLevel_def)
  have mono: "riskLevelToInt (scoreToRiskLevel s1) \<le> riskLevelToInt (scoreToRiskLevel s2)"
    if "flt s1 s2" for s1 s2
    using fge_Fin_mono [OF that] down [of s2]
    by (auto simp: scoreToRiskLevel_def riskLevelToInt_tiers)
  from bands mono show ?thesis by blast
qed

theorem scoreToRiskLevel_thresholds_monotone_witness:
  "flt (Fin 0.59) (Fin 0.6) \<and>
   riskLevelToInt (scoreToRiskLevel (Fin 0.59)) \<le> riskLevelToInt (scoreToRiskLevel (Fin 0.6)) \<and>
   scoreToRiskLevel (Fin 0.59) = RiskMedium \<and> scoreToRiskLevel (Fin 0.6) = RiskHigh"
proof -
  have h: "flt (Fin 0.59) (Fin 0.6)" by (simp add: flt_def)
  have "riskLevelToInt (scoreToRiskLevel (Fin 0.59)) \<le> riskLevelToInt (scoreToRiskLevel (Fin 0.6))"
    using scoreToRiskLevel_thresholds_monotone [of "Fin 0.59"] h by blast
  then show ?thesis using h by (simp add: scoreToRiskLevel_def)
qed

section \<open>Properties of the risk engine\<close>

subsection \<open>The loop and its accumulators\<close>

lemma append_slice_Cons: "append_slice (append_slice s [a]) xs = append_slice s (a # xs)"
  by (cases s) simp_all

lemma assess_step_fields:
  assumes "Analyze h (world st) (item st) = (v, it', w')"
  shows "item (assess_step h st) = it'" "world (assess_step h st) = w'"
    "triggeredCount (assess_step h st) = triggeredCount st + (if Triggered v then 1 else 0)"
    "totalScore (assess_step h st) =
       (if Triggered v then fadd (totalScore st) (fmul (Score v) (Confidence v)) else totalScore st)"
    "totalConfidence (assess_step h st) =
       (if Triggered v then fadd (totalConfidence st) (Confidence v) else totalConfidence st)"
    "Heuristics (assessment (assess_step h st)) = append_slice (Heuristics (assessment st)) [v]"
    "Reasons (assessment (assess_step h st)) =
       (if Triggered v then append_slice (Reasons (assessment st)) [Details v]
        else Reasons (assessment st))"
    "Level (assessment (assess_step h st)) = Level (assessment st)"
    "RScore (assessment (assess_step h st)) = RScore (assessment st)"
    "RConfidence (assessment (assess_step h st)) = RConfidence (assessment st)"
  using assms by (simp_all add: assess_step_def Let_def)

lemma assess_loop_fields:
  assumes "run_heuristics hs (item st) (world st) = (vs, it', w')"
  shows "item (assess_loop hs st) = it' \<and> world (assess_loop hs st) = w' \<and>
    triggeredCount (assess_loop hs st) = triggeredCount st + int (length (triggered vs)) \<and>
    totalScore (assess_loop hs st) =
       foldl fadd (totalScore st) (map (\<lambda>v. fmul (Score v) (Confidence v)) (triggered vs)) \<and>
    totalConfidence (assess_loop hs st) =
       foldl fadd (totalConfidence st) (map Confidence (triggered vs)) \<and>
    Heuristics (assessment (assess_loop hs st)) = append_slice (Heuristics (assessment st)) vs \<and>
    Reasons (assessment (assess_loop hs st)) =
       append_slice (Reasons (assessment st)) (map Details (triggered vs)) \<and>
    Level (assessment (assess_loop hs st)) = Level (assessment st) \<and>
    RScore (assessment (assess_loop hs st)) = RScore (assessment st) \<and>
    RConfidence (assessment (assess_loop hs st)) = RConfidence (assessment st)"
  using assms
proof (induction hs arbitrary: st vs)
  case Nil
  then show ?case by (cases "Heuristics (assessment st)"; cases "Reasons (assessment st)") (auto simp: triggered_def)
next
  case (Cons h hs)
  obtain v it1 w1 where a: "Analyze h (world st) (item st) = (v, it1, w1)"
    by (metis prod_cases3)
  obtain vs1 where r: "run_heuristics hs it1 w1 = (vs1, it', w')" and vs: "vs = v # vs1"
    using Cons.prems a by (auto split: prod.splits)
  note f = assess_step_fields [OF a]
  have "run_heuristics hs (item (assess_step h st)) (world (assess_step h st)) = (vs1, it', w')"
    using r f by simp
  from Cons.IH [OF this] show ?case
    by (simp add: f vs triggered_def append_slice_Cons)
qed

lemma AssessRisk_fields:
  assumes "run_heuristics (heuristics e) it w = (vs, it', w')"
  shows "\<exists>r. AssessRisk srt e it w = (r, it', w') \<and>
    RScore r = (if triggered vs = [] then Fin 0
                else fdiv (weighted_score_sum vs) (confidence_sum vs)) \<and>
    RConfidence r = (if triggered vs = [] then Fin 1
                else math_Min (fdiv (confidence_sum vs)
                                 (float64_of_int (int (length (triggered vs))))) (Fin 1)) \<and>
    Level r = scoreToRiskLevel (RScore r) \<and>
    Reasons r = Slice (map Details (triggered vs)) \<and>
    Heuristics r = Slice (srt score_less vs)"
proof -
  let ?st0 = "\<lparr>assessment = \<lparr>Level = RiskInfo, RScore = Fin 0, RConfidence = Fin 1,
                                 Reasons = Slice [], Heuristics = Slice []\<rparr>,
                  totalScore = Fin 0, totalConfidence = Fin 0, triggeredCount = 0,
                  item = it, world = w\<rparr>"
  have "run_heuristics (heuristics e) (item ?st0) (world ?st0) = (vs, it', w')"
    using assms by simp
  note f = assess_loop_fields [OF this]
  show ?thesis
    by (simp add: AssessRisk_def Let_def f weighted_score_sum_def confidence_sum_def fsum_def)
qed

lemma verdicts_run: "\<exists>it' w'. run_heuristics hs it w = (verdicts hs it w, it', w')"
  by (cases "run_heuristics hs it w") (simp add: verdicts_def)

lemma foldl_fadd_Fin: "foldl fadd (Fin a) (map Fin xs) = Fin (a + sum_list xs)"
  by (induction xs arbitrary: a) (simp_all add: add.assoc)

lemma fsum_Fin: "fsum (map Fin xs) = Fin (sum_list xs)"
  by (simp add: fsum_def foldl_fadd_Fin)

lemma is_Fin_eq: "is_Fin x \<Longrightarrow> x = Fin (real_of x)"
  by (cases x) simp_all

lemma math_Min_Fin: "math_Min (Fin a) (Fin b) = Fin (min a b)"
  by (simp add: math_Min_def flt_def min_def)

lemma weighted_score_sum_Fin:
  assumes "\<forall>v \<in> set (triggered vs). is_Fin (Score v) \<and> is_Fin (Confidence v)"
  shows "weighted_score_sum vs = Fin (\<Sum>v\<leftarrow>triggered vs. real_of (Score v) * real_of (Confidence v))"
proof -
  have "map (\<lambda>v. fmul (Score v) (Confidence v)) (triggered vs)
      = map Fin (map (\<lambda>v. real_of (Score v) * real_of (Confidence v)) (triggered vs))"
  proof (simp, intro ballI)
    fix v assume "v \<in> set (triggered vs)"
    with assms have "is_Fin (Score v)" "is_Fin (Confidence v)" by auto
    then show "fmul (Score v) (Confidence v) = Fin (real_of (Score v) * real_of (Confidence v))"
      by (cases "Score v"; cases "Confidence v") simp_all
  qed
  then show ?thesis by (simp only: weighted_score_sum_def fsum_Fin)
qed

lemma confidence_sum_Fin:
  assumes "\<forall>v \<in> set (triggered vs). is_Fin (Confidence v)"
  shows "confidence_sum vs = Fin (\<Sum>v\<leftarrow>triggered vs. real_of (Confidence v))"
proof -
  have "map Confidence (triggered vs) = map Fin (map (\<lambda>v. real_of (Confidence v)) (triggered vs))"
  proof (simp, intro ballI)
    fix v assume "v \<in> set (triggered vs)"
    with assms have "is_Fin (Confidence v)" by auto
    then show "Confidence v = Fin (real_of (Confidence v))"
      by (cases "Confidence v") simp_all
  qed
  then show ?thesis by (simp only: confidence_sum_def fsum_Fin)
qed



lemma foldl_fadd_zero_or_NaN:
  assumes "a = Fin 0 \<or> a = NaN" and "\<forall>x \<in> set xs. x = Fin 0 \<or> x = NaN"
  shows "foldl fadd a xs = Fin 0 \<or> foldl fadd a xs = NaN"
  using assms
proof (induction xs arbitrary: a)
  case Nil
  then show ?case by simp
next
  case (Cons x xs)
  then have "fadd a x = Fin 0 \<or> fadd a x = NaN" by auto
  moreover have "\<forall>y \<in> set xs. y = Fin 0 \<or> y = NaN" using Cons.prems by simp
  ultimately show ?case using Cons.IH [of "fadd a x"] by simp
qed

lemma fmul_zero_confidence: "fmul s (Fin 0) = Fin 0 \<or> fmul s (Fin 0) = NaN"
  by (cases s) simp_all

lemma sum_list_nonneg_pos_iff:
  fixes f :: "'a \<Rightarrow> real"
  assumes "\<forall>x \<in> set xs. 0 \<le> f x"
  shows "(\<Sum>x\<leftarrow>xs. f x) \<noteq> 0 \<longleftrightarrow> (\<exists>x \<in> set xs. 0 < f x)"
  using assms
proof (induction xs)
  case Nil
  then show ?case by simp
next
  case (Cons a xs)
  have a: "0 \<le> f a" using Cons.prems by simp
  have "\<And>y. y \<in> set (map f xs) \<Longrightarrow> 0 \<le> y" using Cons.prems by auto
  then have s: "0 \<le> sum_list (map f xs)" by (rule sum_list_nonneg)
  have ih: "sum_list (map f xs) \<noteq> 0 \<longleftrightarrow> (\<exists>x \<in> set xs. 0 < f x)"
    using Cons by simp
  have "f a + sum_list (map f xs) \<noteq> 0 \<longleftrightarrow> 0 < f a \<or> sum_list (map f xs) \<noteq> 0"
    using a s by linarith
  then show ?case using ih by simp
qed

text \<open>
  C9. The division by the confidence sum is unguarded. When at least one verdict triggered
  and every triggered verdict has confidence exactly 0, the score is NaN (0/0) and the
  confidence is 0. For finite scores and confidences within [0,1], the score is a number
  exactly when some triggered verdict has a confidence above 0.
\<close>
theorem AssessRisk_zero_confidence:
  assumes "vs = verdicts (heuristics e) it w" and "r = fst (AssessRisk srt e it w)"
    and "triggered vs \<noteq> []"
  shows "((\<forall>v \<in> set (triggered vs). Confidence v = Fin 0) \<longrightarrow>
            RScore r = NaN \<and> RConfidence r = Fin 0) \<and>
         ((\<forall>v \<in> set (triggered vs). is_Fin (Score v) \<and>
              (\<exists>c. Confidence v = Fin c \<and> 0 \<le> c \<and> c \<le> 1)) \<longrightarrow>
            (is_Fin (RScore r) \<longleftrightarrow> (\<exists>v \<in> set (triggered vs). fgt (Confidence v) (Fin 0))))"
proof -
  obtain it' w' where run: "run_heuristics (heuristics e) it w = (vs, it', w')"
    using verdicts_run assms(1) by metis
  from AssessRisk_fields [OF run, of srt] assms(2,3)
  have s: "RScore r = fdiv (weighted_score_sum vs) (confidence_sum vs)"
    and c: "RConfidence r = math_Min (fdiv (confidence_sum vs)
                                 (float64_of_int (int (length (triggered vs))))) (Fin 1)"
    by auto
  have n0: "real (length (triggered vs)) \<noteq> 0" using assms(3) by simp
  have zero: "RScore r = NaN \<and> RConfidence r = Fin 0"
    if z: "\<forall>v \<in> set (triggered vs). Confidence v = Fin 0"
  proof -
    have "map Confidence (triggered vs) = map Fin (map (\<lambda>v. 0) (triggered vs))"
      using z by simp
    then have cs: "confidence_sum vs = Fin 0"
      by (simp only: confidence_sum_def fsum_Fin) simp
    have "\<forall>x \<in> set (map (\<lambda>v. fmul (Score v) (Confidence v)) (triggered vs)). x = Fin 0 \<or> x = NaN"
      using z fmul_zero_confidence by auto
    then have "weighted_score_sum vs = Fin 0 \<or> weighted_score_sum vs = NaN"
      unfolding weighted_score_sum_def fsum_def by (intro foldl_fadd_zero_or_NaN) simp_all
    then have "RScore r = NaN" using s cs by auto
    moreover have "RConfidence r = Fin 0"
      using c cs n0 by (simp add: float64_of_int_def math_Min_Fin)
    ultimately show ?thesis by simp
  qed
  have fin: "is_Fin (RScore r) \<longleftrightarrow> (\<exists>v \<in> set (triggered vs). fgt (Confidence v) (Fin 0))"
    if f: "\<forall>v \<in> set (triggered vs). is_Fin (Score v) \<and>
              (\<exists>c. Confidence v = Fin c \<and> 0 \<le> c \<and> c \<le> 1)"
  proof -
    have f1: "\<forall>v \<in> set (triggered vs). is_Fin (Score v) \<and> is_Fin (Confidence v)"
      using f by auto
    have f2: "\<forall>v \<in> set (triggered vs). is_Fin (Confidence v)" using f by auto
    have nn: "\<forall>v \<in> set (triggered vs). 0 \<le> real_of (Confidence v)" using f by auto
    have pos: "0 < real_of (Confidence v) \<longleftrightarrow> fgt (Confidence v) (Fin 0)"
      if "v \<in> set (triggered vs)" for v
      using f that by auto
    let ?C = "\<Sum>v\<leftarrow>triggered vs. real_of (Confidence v)"
    have "is_Fin (RScore r) \<longleftrightarrow> ?C \<noteq> 0"
      by (simp add: s weighted_score_sum_Fin [OF f1] confidence_sum_Fin [OF f2] inf_of_sign_def)
    also have "\<dots> \<longleftrightarrow> (\<exists>v \<in> set (triggered vs). 0 < real_of (Confidence v))"
      using sum_list_nonneg_pos_iff [OF nn] .
    also have "\<dots> \<longleftrightarrow> (\<exists>v \<in> set (triggered vs). fgt (Confidence v) (Fin 0))"
      using pos by blast
    finally show ?thesis .
  qed
  from zero fin show ?thesis by blast
qed

lemma run_heuristics_pure:
  assumes "\<forall>h \<in> set hs. pure_heuristic h"
  shows "run_heuristics hs it w = (map (\<lambda>h. fst (Analyze h w0 it)) hs, it, w)"
  using assms
proof (induction hs)
  case Nil
  then show ?case by simp
next
  case (Cons h hs)
  then have "Analyze h w it = (fst (Analyze h w0 it), it, w)"
    by (simp add: pure_heuristic_def)
  with Cons show ?case by simp
qed

lemma RiskAssessment_eqI:
  fixes r1 r2 :: RiskAssessment
  assumes "Level r1 = Level r2" "RScore r1 = RScore r2" "RConfidence r1 = RConfidence r2"
    "Reasons r1 = Reasons r2" "Heuristics r1 = Heuristics r2"
  shows "r1 = r2"
  using assms by (intro RiskAssessment.equality) simp_all

text \<open>
  C8. With pure heuristics, the assessment does not depend on anything but the engine and
  the item: two calls, made in whatever state of the world, return the same
  RiskAssessment (tier, score, confidence, reasons and verdict list in the same order),
  and a call leaves the item and the world unchanged, so a later call sees an identical
  item.
\<close>
theorem AssessRisk_deterministic:
  assumes "\<forall>h \<in> set (heuristics e). pure_heuristic h"
  shows "fst (AssessRisk srt e it w1) = fst (AssessRisk srt e it w2) \<and>
         snd (AssessRisk srt e it w1) = (it, w1)"
proof -
  let ?vs = "map (\<lambda>h. fst (Analyze h w1 it)) (heuristics e)"
  have r1: "run_heuristics (heuristics e) it w1 = (?vs, it, w1)"
    and r2: "run_heuristics (heuristics e) it w2 = (?vs, it, w2)"
    using run_heuristics_pure [OF assms] by blast+
  obtain a1 where a1: "AssessRisk srt e it w1 = (a1, it, w1)"
    and f1: "RScore a1 = (if triggered ?vs = [] then Fin 0
                else fdiv (weighted_score_sum ?vs) (confidence_sum ?vs))"
      "RConfidence a1 = (if triggered ?vs = [] then Fin 1
                else math_Min (fdiv (confidence_sum ?vs)
                                 (float64_of_int (int (length (triggered ?vs))))) (Fin 1))"
      "Level a1 = scoreToRiskLevel (RScore a1)"
      "Reasons a1 = Slice (map Details (triggered ?vs))"
      "Heuristics a1 = Slice (srt score_less ?vs)"
    using AssessRisk_fields [OF r1, of srt] by blast
  obtain a2 where a2: "AssessRisk srt e it w2 = (a2, it, w2)"
    and f2: "RScore a2 = (if triggered ?vs = [] then Fin 0
                else fdiv (weighted_score_sum ?vs) (confidence_sum ?vs))"
      "RConfidence a2 = (if triggered ?vs = [] then Fin 1
                else math_Min (fdiv (confidence_sum ?vs)
                                 (float64_of_int (int (length (triggered ?vs))))) (Fin 1))"
      "Level a2 = scoreToRiskLevel (RScore a2)"
      "Reasons a2 = Slice (map Details (triggered ?vs))"
      "Heuristics a2 = Slice (srt score_less ?vs)"
    using AssessRisk_fields [OF r2, of srt] by blast
  have "a1 = a2" by (rule RiskAssessment_eqI) (simp_all only: f1 f2)
  with a1 a2 show ?thesis by simp
qed











lemmas example_defs = verdicts_def triggered_def NewEngine_def const_heuristic_def
  verdict_A_def verdict_B_def verdict_C_def verdict_Z_def verdict_def



theorem AssessRisk_zero_confidence_witness:
  "triggered (verdicts (heuristics zero_engine) example_item ()) \<noteq> [] \<and>
   list_all (\<lambda>v. Confidence v = Fin 0)
     (triggered (verdicts (heuristics zero_engine) example_item ())) \<and>
   RScore (fst (AssessRisk tie_reversing_sort zero_engine example_item ())) = NaN \<and>
   RConfidence (fst (AssessRisk tie_reversing_sort zero_engine example_item ())) = Fin 0 \<and>
   is_Fin (RScore (fst (AssessRisk tie_reversing_sort example_engine example_item ())))"
proof -
  have t: "triggered (verdicts (heuristics zero_engine) example_item ()) = [verdict_Z]"
    by (simp add: zero_engine_def example_defs)
  have t2: "triggered (verdicts (heuristics example_engine) example_item ()) = [verdict_A, verdict_B]"
    by (simp add: example_engine_def example_defs)
  have n: "triggered (verdicts (heuristics zero_engine) example_item ()) \<noteq> []"
    and n2: "triggered (verdicts (heuristics example_engine) example_item ()) \<noteq> []"
    by (simp_all add: t t2)
  have z: "Confidence verdict_Z = Fin 0" by (simp add: verdict_Z_def verdict_def)
  have a: "is_Fin (Score verdict_A) \<and> Confidence verdict_A = Fin 0.5"
       "is_Fin (Score verdict_B) \<and> Confidence verdict_B = Fin 1"
    by (simp_all add: verdict_A_def verdict_B_def verdict_def)
  note r1 = AssessRisk_zero_confidence [OF refl refl n, of tie_reversing_sort]
  note r2 = AssessRisk_zero_confidence [OF refl refl n2, of tie_reversing_sort]
  have ex: "\<exists>c::real. c * 2 = 1 \<and> 0 \<le> c \<and> c \<le> 1"
    by (rule exI [of _ "1 / 2"]) simp
  from r1 r2 ex show ?thesis by (simp add: t t2 z a)
qed

theorem AssessRisk_deterministic_witness:
  "list_all pure_heuristic (heuristics (example_engine :: bool Engine)) \<and>
   fst (AssessRisk tie_reversing_sort example_engine example_item True)
     = fst (AssessRisk tie_reversing_sort example_engine example_item False) \<and>
   snd (AssessRisk tie_reversing_sort example_engine example_item True) = (example_item, True)"
proof -
  have p: "\<forall>h \<in> set (heuristics (example_engine :: bool Engine)). pure_heuristic h"
    by (simp add: example_engine_def NewEngine_def const_heuristic_def pure_heuristic_def)
  from AssessRisk_deterministic [OF p, of tie_reversing_sort example_item True False] p
  show ?thesis by (simp add: list_all_iff)
qed



section \<open>Properties of the orchestrator\<close>

lemma elems_append_slice: "elems (append_slice s xs) = elems s @ xs"
  by (cases s) simp_all

lemma record_outcome_fields:
  "elems (allItems (record_outcome nw s st)) = elems (allItems st) @ entries_of s"
  "map untimed (elems (allErrors (record_outcome nw s st)))
     = map untimed (elems (allErrors st)) @ failure_of s"
  "clock (record_outcome nw s st) = clock st + length (failure_of s)"
  by (auto simp: record_outcome_def entries_of_def failure_of_def untimed_def elems_append_slice
      split: prod.splits option.splits)

lemma scan_sequential_fields:
  "elems (allItems (scan_sequential nw ss st)) = elems (allItems st) @ concat (map entries_of ss) \<and>
   map untimed (elems (allErrors (scan_sequential nw ss st)))
     = map untimed (elems (allErrors st)) @ concat (map failure_of ss) \<and>
   clock (scan_sequential nw ss st) = clock st + length (concat (map failure_of ss))"
  by (induction ss arbitrary: st) (simp_all add: record_outcome_fields)

lemma remove_nth_mset:
  assumes "i < length xs"
  shows "add_mset (xs ! i) (mset (take i xs @ drop (Suc i) xs)) = mset xs"
proof -
  have "xs = take i xs @ xs ! i # drop (Suc i) xs" using assms by (rule id_take_nth_drop)
  then have "mset xs = mset (take i xs @ xs ! i # drop (Suc i) xs)" by simp
  then show ?thesis by simp
qed

lemma mset_goroutine_order: "mset (goroutine_order ks ps) = mset ps"
proof (induction ks ps rule: goroutine_order.induct)
  case (3 k ks p ps)
  let ?i = "k mod length (p # ps)"
  have i: "?i < length (p # ps)" by simp
  have "mset (goroutine_order (k # ks) (p # ps))
      = add_mset ((p # ps) ! ?i) (mset (take ?i (p # ps) @ drop (Suc ?i) (p # ps)))"
    using 3 by (simp add: Let_def del: nth_Cons_Suc take_Suc_Cons drop_Suc_Cons)
  also have "\<dots> = mset (p # ps)" using i by (rule remove_nth_mset)
  finally show ?case .
qed simp_all

lemma goroutine_order_complete:
  assumes "mset order = mset ps"
  shows "\<exists>ks. goroutine_order ks ps = order"
  using assms
proof (induction order arbitrary: ps)
  case Nil
  then show ?case by (intro exI [of _ "[]"]) simp
next
  case (Cons x order)
  then have "x \<in> set ps" by (metis list.set_intros(1) set_mset_mset)
  then obtain i where i: "i < length ps" "ps ! i = x" by (auto simp: in_set_conv_nth)
  let ?rest = "take i ps @ drop (Suc i) ps"
  have "add_mset x (mset ?rest) = mset ps" using remove_nth_mset [OF i(1)] i(2) by simp
  moreover have "add_mset x (mset order) = mset ps" using Cons.prems by simp
  ultimately have "add_mset x (mset order) = add_mset x (mset ?rest)" by (simp only:)
  then have "mset order = mset ?rest" by (simp only: add_mset_add_mset_same_iff)
  then obtain ks where ks: "goroutine_order ks ?rest = order" using Cons.IH by blast
  obtain p ps' where ps: "ps = p # ps'" using i(1) by (cases ps) auto
  have "goroutine_order (i # ks) (p # ps') = x # order"
    using i ks unfolding ps by (simp add: Let_def del: nth_Cons_Suc take_Suc_Cons drop_Suc_Cons)
  then show ?case unfolding ps by blast
qed

lemma mset_recording_order: "mset (recording_order orch rt) = mset (scanners orch)"
  by (simp add: recording_order_def mset_goroutine_order)

lemma RunScan_fields:
  assumes "r = fst (RunScan orch ctx rt)"
  shows "snd (RunScan orch ctx rt) = None"
    "elems (Items r) = concat (map entries_of (recording_order orch rt))"
    "map untimed (elems (SErrors r)) = concat (map failure_of (recording_order orch rt))"
    "TotalItems r = int (length (elems (Items r)))"
    "RiskSummary r = tally (elems (Items r)) Map.empty"
  using assms
  by (simp_all add: RunScan_def Let_def recording_order_def scan_parallel_def
      scan_sequential_fields len_def)

lemma mset_concat_map_cong:
  assumes "mset xs = mset ys"
  shows "mset (concat (map f xs)) = mset (concat (map f ys))"
proof -
  have "mset (concat (map f zs)) = sum_mset (image_mset (\<lambda>z. mset (f z)) (mset zs))" for zs
    by (induction zs) simp_all
  then show ?thesis using assms by simp
qed

lemma mset_part_of_concat:
  assumes "s \<in> set ss"
  shows "mset (f s) \<subseteq># mset (concat (map f ss))"
proof -
  obtain a b where "ss = a @ s # b" using assms by (meson split_list)
  then show ?thesis by simp
qed

lemma failure_of_cases: "failure_of s = [] \<or> (\<exists>k. failure_of s = [k])"
  by (auto simp: failure_of_def split: prod.splits option.splits)

lemma failures_count:
  "length (filter (\<lambda>y. y = k) (concat (map failure_of ss)))
     = length (filter (\<lambda>s. failure_of s = [k]) ss)"
proof (induction ss)
  case Nil
  then show ?case by simp
next
  case (Cons s ss)
  from failure_of_cases [of s] Cons show ?case by auto
qed

lemma length_filter_mset_cong:
  assumes "mset xs = mset ys"
  shows "length (filter P xs) = length (filter P ys)"
proof -
  have "mset (filter P xs) = mset (filter P ys)" using assms by (simp only: mset_filter)
  then show ?thesis by (metis size_mset)
qed

text \<open>
  C1. In either mode and under every schedule, when probe P fails while probes Q and R
  succeed, \<open>RunScan\<close> returns a nil error, its result holds every entry Q and R returned,
  and P's failure is recorded as a ScanError with P's mechanism kind and error text:
  the ScanErrors correspond one to one to the failed probes, so there is exactly one for
  P when P is the only probe that failed with that kind and text.
\<close>
theorem RunScan_fault_isolation:
  assumes "P \<in> set (scanners orch)" "Q \<in> set (scanners orch)" "R \<in> set (scanners orch)"
    and "snd (Scan P) = Some err" "snd (Scan Q) = None" "snd (Scan R) = None"
    and "r = fst (RunScan orch ctx rt)"
  shows "snd (RunScan orch ctx rt) = None \<and>
     mset (elems (fst (Scan Q))) \<subseteq># mset (elems (Items r)) \<and>
     mset (elems (fst (Scan R))) \<subseteq># mset (elems (Items r)) \<and>
     mset (elems (Items r)) = mset (concat (map entries_of (scanners orch))) \<and>
     mset (map untimed (elems (SErrors r))) = mset (concat (map failure_of (scanners orch))) \<and>
     (Type P, [], Error_text err) \<in> set (map untimed (elems (SErrors r))) \<and>
     (length (filter (\<lambda>s. failure_of s = [(Type P, [], Error_text err)]) (scanners orch)) = 1 \<longrightarrow>
      length (filter (\<lambda>e. untimed e = (Type P, [], Error_text err)) (elems (SErrors r))) = 1)"
proof -
  let ?k = "(Type P, [] :: string, Error_text err)"
  note f = RunScan_fields [OF assms(7)]
  note perm = mset_recording_order [of orch rt]
  have items: "mset (elems (Items r)) = mset (concat (map entries_of (scanners orch)))"
    unfolding f(2) using perm by (rule mset_concat_map_cong)
  have errs: "mset (map untimed (elems (SErrors r))) = mset (concat (map failure_of (scanners orch)))"
    unfolding f(3) using perm by (rule mset_concat_map_cong)
  have eQ: "entries_of Q = elems (fst (Scan Q))" and eR: "entries_of R = elems (fst (Scan R))"
    using assms(5,6) by (auto simp: entries_of_def split: prod.splits)
  have fP: "failure_of P = [?k]"
    using assms(4) by (auto simp: failure_of_def split: prod.splits)
  have q: "mset (elems (fst (Scan Q))) \<subseteq># mset (elems (Items r))"
    unfolding items eQ [symmetric] using assms(2) by (rule mset_part_of_concat)
  have rr: "mset (elems (fst (Scan R))) \<subseteq># mset (elems (Items r))"
    unfolding items eR [symmetric] using assms(3) by (rule mset_part_of_concat)
  have "mset (failure_of P) \<subseteq># mset (concat (map failure_of (scanners orch)))"
    using assms(1) by (rule mset_part_of_concat)
  then have "?k \<in># mset (map untimed (elems (SErrors r)))"
    unfolding errs fP by (simp add: insert_subset_eq_iff)
  then have mem: "?k \<in> set (map untimed (elems (SErrors r)))" by (simp only: set_mset_mset)
  have one: "length (filter (\<lambda>e. untimed e = ?k) (elems (SErrors r))) = 1"
    if u: "length (filter (\<lambda>s. failure_of s = [?k]) (scanners orch)) = 1"
  proof -
    have "length (filter (\<lambda>e. untimed e = ?k) (elems (SErrors r)))
        = length (filter (\<lambda>y. y = ?k) (map untimed (elems (SErrors r))))"
      by (simp add: filter_map comp_def)
    also have "\<dots> = length (filter (\<lambda>s. failure_of s = [?k]) (recording_order orch rt))"
      unfolding f(3) by (rule failures_count)
    also have "\<dots> = length (filter (\<lambda>s. failure_of s = [?k]) (scanners orch))"
      using perm by (rule length_filter_mset_cong)
    finally show ?thesis using u by simp
  qed
  from f(1) q rr items errs mem one show ?thesis by blast
qed

lemma all_failed_entries:
  assumes "\<forall>s \<in> set ss. snd (Scan s) \<noteq> None"
  shows "concat (map entries_of ss) = [] \<and> length (concat (map failure_of ss)) = length ss"
  using assms
  by (induction ss) (auto simp: entries_of_def failure_of_def split: prod.splits option.splits)

text \<open>
  C10. \<open>RunScan\<close> returns a nil error whatever the probes do, and its result does not
  depend on the context it is given, cancelled or not. When every probe fails the result
  has no entries, a count of 0 and one ScanError per probe.
\<close>
theorem RunScan_never_fails:
  assumes "r = fst (RunScan orch ctx rt)"
  shows "snd (RunScan orch ctx rt) = None \<and>
     (\<forall>ctx'. RunScan orch ctx' rt = RunScan orch ctx rt) \<and>
     ((\<forall>s \<in> set (scanners orch). snd (Scan s) \<noteq> None) \<longrightarrow>
        elems (Items r) = [] \<and> TotalItems r = 0 \<and>
        length (elems (SErrors r)) = length (scanners orch) \<and>
        mset (map untimed (elems (SErrors r))) = mset (concat (map failure_of (scanners orch))))"
proof -
  note f = RunScan_fields [OF assms]
  note perm = mset_recording_order [of orch rt]
  have ctx: "\<forall>ctx'. RunScan orch ctx' rt = RunScan orch ctx rt" by (simp add: RunScan_def)
  have errs: "mset (map untimed (elems (SErrors r))) = mset (concat (map failure_of (scanners orch)))"
    unfolding f(3) using perm by (rule mset_concat_map_cong)
  have allf: "elems (Items r) = [] \<and> TotalItems r = 0 \<and>
        length (elems (SErrors r)) = length (scanners orch)"
    if a: "\<forall>s \<in> set (scanners orch). snd (Scan s) \<noteq> None"
  proof -
    have "set (recording_order orch rt) = set (scanners orch)" using perm by (metis set_mset_mset)
    then have a': "\<forall>s \<in> set (recording_order orch rt). snd (Scan s) \<noteq> None" using a by simp
    note e = all_failed_entries [OF a']
    have "length (recording_order orch rt) = length (scanners orch)" using perm by (metis size_mset)
    moreover have "length (elems (SErrors r)) = length (map untimed (elems (SErrors r)))" by simp
    ultimately show ?thesis using e f by (simp del: length_map)
  qed
  from f(1) ctx errs allf show ?thesis by blast
qed



text \<open>
  C2 (amended). For the same probes with the same outcomes, a parallel and a sequential
  run (under any schedule, clock and context) return the same entries as multisets and,
  leaving the timestamps aside, the same errors as multisets. The sequential run records
  the probes in collection order; the parallel run records them in some order of the
  collection, each probe's entries staying together in the order the probe returned them.
\<close>
theorem RunScan_modes_agree:
  assumes "rs = fst (RunScan (NewOrchestrator ss False) ctx1 rt1)"
    and "rp = fst (RunScan (NewOrchestrator ss True) ctx2 rt2)"
  shows "mset (elems (Items rp)) = mset (elems (Items rs)) \<and>
     mset (map untimed (elems (SErrors rp))) = mset (map untimed (elems (SErrors rs))) \<and>
     elems (Items rs) = concat (map entries_of ss) \<and>
     map untimed (elems (SErrors rs)) = concat (map failure_of ss) \<and>
     (\<exists>order. mset order = mset ss \<and> elems (Items rp) = concat (map entries_of order) \<and>
        map untimed (elems (SErrors rp)) = concat (map failure_of order))"
proof -
  note fs = RunScan_fields [OF assms(1)]
  note fp = RunScan_fields [OF assms(2)]
  let ?order = "recording_order (NewOrchestrator ss True) rt2"
  have os: "recording_order (NewOrchestrator ss False) rt1 = ss"
    by (simp add: recording_order_def NewOrchestrator_def)
  have perm: "mset ?order = mset ss"
    using mset_recording_order [of "NewOrchestrator ss True" rt2] by (simp add: NewOrchestrator_def)
  have 1: "elems (Items rs) = concat (map entries_of ss)"
    and 2: "map untimed (elems (SErrors rs)) = concat (map failure_of ss)"
    using fs(2,3) os by simp_all
  have 3: "mset (elems (Items rp)) = mset (elems (Items rs))"
    unfolding 1 fp(2) using perm by (rule mset_concat_map_cong)
  have 4: "mset (map untimed (elems (SErrors rp))) = mset (map untimed (elems (SErrors rs)))"
    unfolding 2 fp(3) using perm by (rule mset_concat_map_cong)
  from 1 2 3 4 perm fp(2,3) show ?thesis by blast
qed

lemma record_outcome_failing:
  "record_outcome nw (failing_probe m msg) st =
     st\<lparr>allErrors := append_slice (allErrors st)
            [\<lparr>EMechanism = m, EPath = [], Error = msg, Timestamp = nw (clock st)\<rparr>],
        clock := clock st + 1\<rparr>"
  by (simp add: record_outcome_def failing_probe_def)

lemma record_outcome_working:
  "record_outcome nw (working_probe m its) st = st\<lparr>allItems := append_slice (allItems st) its\<rparr>"
  by (simp add: record_outcome_def working_probe_def)

lemmas probe_defs = probe_P_def probe_P2_def probe_Q_def probe_R_def failing_probe_def
  working_probe_def NewOrchestrator_def

lemmas run_defs = RunScan_def scan_parallel_def NewOrchestrator_def ticking_def Let_def

lemmas probe_outcomes = probe_P_def probe_P2_def probe_Q_def probe_R_def
  record_outcome_failing record_outcome_working

theorem RunScan_fault_isolation_witness:
  "probe_P \<in> set (scanners (NewOrchestrator [probe_P, probe_Q, probe_R] True)) \<and>
   snd (Scan probe_P) = Some (GoError ''permission denied'') \<and>
   snd (Scan probe_Q) = None \<and> snd (Scan probe_R) = None \<and>
   Type probe_P = ''LaunchDaemon'' \<and> elems (fst (Scan probe_Q)) = [example_item] \<and>
   snd (RunScan (NewOrchestrator [probe_P, probe_Q, probe_R] True) background (ticking [2, 0])) = None \<and>
   mset (elems (fst (Scan probe_Q))) \<subseteq># mset (elems (Items (fst
     (RunScan (NewOrchestrator [probe_P, probe_Q, probe_R] True) background (ticking [2, 0]))))) \<and>
   length (filter (\<lambda>e. untimed e = (Type probe_P, [], Error_text (GoError ''permission denied'')))
     (elems (SErrors (fst
       (RunScan (NewOrchestrator [probe_P, probe_Q, probe_R] True) background (ticking [2, 0])))))) = 1"
proof -
  let ?orch = "NewOrchestrator [probe_P, probe_Q, probe_R] True"
  have m: "probe_P \<in> set (scanners ?orch)" "probe_Q \<in> set (scanners ?orch)"
    "probe_R \<in> set (scanners ?orch)"
    by (simp_all add: NewOrchestrator_def)
  have s: "snd (Scan probe_P) = Some (GoError ''permission denied'')"
    "snd (Scan probe_Q) = None" "snd (Scan probe_R) = None"
    by (simp_all add: probe_defs)
  have u: "length (filter (\<lambda>s. failure_of s
        = [(Type probe_P, [], Error_text (GoError ''permission denied''))]) (scanners ?orch)) = 1"
    by (simp add: probe_defs failure_of_def)
  have t: "Type probe_P = ''LaunchDaemon''" "elems (fst (Scan probe_Q)) = [example_item]"
    by (simp_all add: probe_defs)
  note th = RunScan_fault_isolation [OF m s refl, of background "ticking [2, 0]"]
  from th have c1: "snd (RunScan ?orch background (ticking [2, 0])) = None" by (rule conjunct1)
  from th have c2: "mset (elems (fst (Scan probe_Q))) \<subseteq># mset (elems (Items (fst
     (RunScan ?orch background (ticking [2, 0])))))" by blast
  from th u have c3: "length (filter
     (\<lambda>e. untimed e = (Type probe_P, [], Error_text (GoError ''permission denied'')))
     (elems (SErrors (fst (RunScan ?orch background (ticking [2, 0])))))) = 1" by blast
  from m(1) s t c1 c2 c3 show ?thesis by (intro conjI)
qed

theorem RunScan_never_fails_witness:
  "list_all (\<lambda>s. snd (Scan s) \<noteq> None) (scanners (NewOrchestrator [probe_P, probe_P2] True)) \<and>
   snd (RunScan (NewOrchestrator [probe_P, probe_P2] True) cancelled (ticking [1])) = None \<and>
   RunScan (NewOrchestrator [probe_P, probe_P2] True) background (ticking [1])
     = RunScan (NewOrchestrator [probe_P, probe_P2] True) cancelled (ticking [1]) \<and>
   elems (Items (fst (RunScan (NewOrchestrator [probe_P, probe_P2] True) cancelled (ticking [1])))) = [] \<and>
   TotalItems (fst (RunScan (NewOrchestrator [probe_P, probe_P2] True) cancelled (ticking [1]))) = 0 \<and>
   length (elems (SErrors (fst
     (RunScan (NewOrchestrator [probe_P, probe_P2] True) cancelled (ticking [1]))))) = 2"
proof -
  let ?orch = "NewOrchestrator [probe_P, probe_P2] True"
  have a: "\<forall>s \<in> set (scanners ?orch). snd (Scan s) \<noteq> None"
    by (simp add: probe_defs)
  have l: "length (scanners ?orch) = 2" by (simp add: NewOrchestrator_def)
  from RunScan_never_fails [OF refl, of ?orch cancelled "ticking [1]"] a l
  show ?thesis by (auto simp: list_all_iff)
qed

theorem RunScan_modes_agree_witness:
  "mset (elems (Items (fst (RunScan (NewOrchestrator [probe_P, probe_Q, probe_R] True)
       background (ticking [2, 0])))))
     = mset (elems (Items (fst (RunScan (NewOrchestrator [probe_P, probe_Q, probe_R] False)
       background (ticking []))))) \<and>
   mset (map untimed (elems (SErrors (fst (RunScan (NewOrchestrator [probe_P, probe_Q, probe_R] True)
       background (ticking [2, 0]))))))
     = mset (map untimed (elems (SErrors (fst (RunScan (NewOrchestrator [probe_P, probe_Q, probe_R] False)
       background (ticking [])))))) \<and>
   elems (Items (fst (RunScan (NewOrchestrator [probe_P, probe_Q, probe_R] False)
       background (ticking [])))) = [example_item]"
proof -
  have e: "concat (map entries_of [probe_P, probe_Q, probe_R]) = [example_item]"
    by (simp add: entries_of_def probe_defs)
  note th = RunScan_modes_agree [OF refl refl, of "[probe_P, probe_Q, probe_R]" background
      "ticking [2, 0]" background "ticking []"]
  from th have a: "mset (elems (Items (fst (RunScan (NewOrchestrator [probe_P, probe_Q, probe_R] True)
       background (ticking [2, 0])))))
     = mset (elems (Items (fst (RunScan (NewOrchestrator [probe_P, probe_Q, probe_R] False)
       background (ticking [])))))" by (rule conjunct1)
  from th have b: "mset (map untimed (elems (SErrors (fst (RunScan (NewOrchestrator [probe_P, probe_Q, probe_R] True)
       background (ticking [2, 0]))))))
     = mset (map untimed (elems (SErrors (fst (RunScan (NewOrchestrator [probe_P, probe_Q, probe_R] False)
       background (ticking []))))))" by blast
  from th have "elems (Items (fst (RunScan (NewOrchestrator [probe_P, probe_Q, probe_R] False)
       background (ticking [])))) = concat (map entries_of [probe_P, probe_Q, probe_R])" by blast
  with e have c: "elems (Items (fst (RunScan (NewOrchestrator [probe_P, probe_Q, probe_R] False)
       background (ticking [])))) = [example_item]" by (simp only:)
  from a b c show ?thesis by (intro conjI)
qed

text \<open>
  With their timestamps the error lists of the two modes differ as multisets: two failing
  probes, the second one's goroutine getting the mutex first, and a clock that advances.
\<close>
theorem RunScan_timestamps_counterexample:
  "mset (elems (SErrors (fst
      (RunScan (NewOrchestrator [probe_P, probe_P2] True) background (ticking [1])))))
   \<noteq> mset (elems (SErrors (fst
      (RunScan (NewOrchestrator [probe_P, probe_P2] False) background (ticking [1])))))"
proof -
  have o: "goroutine_order [1] [probe_P, probe_P2] = [probe_P2, probe_P]"
    by (simp add: Let_def)
  have p: "elems (SErrors (fst
      (RunScan (NewOrchestrator [probe_P, probe_P2] True) background (ticking [1]))))
    = [\<lparr>EMechanism = ''CronJob'', EPath = [], Error = ''crontab: not found'', Timestamp = 1\<rparr>,
       \<lparr>EMechanism = ''LaunchDaemon'', EPath = [], Error = ''permission denied'', Timestamp = 2\<rparr>]"
    by (simp add: run_defs o) (simp add: probe_outcomes)
  have s: "elems (SErrors (fst
      (RunScan (NewOrchestrator [probe_P, probe_P2] False) background (ticking [1]))))
    = [\<lparr>EMechanism = ''LaunchDaemon'', EPath = [], Error = ''permission denied'', Timestamp = 1\<rparr>,
       \<lparr>EMechanism = ''CronJob'', EPath = [], Error = ''crontab: not found'', Timestamp = 2\<rparr>]"
    by (simp add: run_defs) (simp add: probe_outcomes)
  show ?thesis
  proof
    assume "mset (elems (SErrors (fst
      (RunScan (NewOrchestrator [probe_P, probe_P2] True) background (ticking [1])))))
      = mset (elems (SErrors (fst
      (RunScan (NewOrchestrator [probe_P, probe_P2] False) background (ticking [1])))))"
    then have "set (elems (SErrors (fst
      (RunScan (NewOrchestrator [probe_P, probe_P2] True) background (ticking [1])))))
      = set (elems (SErrors (fst
      (RunScan (NewOrchestrator [probe_P, probe_P2] False) background (ticking [1])))))"
      by (rule mset_eq_setD)
    moreover have "\<lparr>EMechanism = ''CronJob'', EPath = [], Error = ''crontab: not found'', Timestamp = 1\<rparr>
        \<in> set (elems (SErrors (fst
      (RunScan (NewOrchestrator [probe_P, probe_P2] True) background (ticking [1])))))"
      unfolding p by simp
    ultimately have "\<lparr>EMechanism = ''CronJob'', EPath = [], Error = ''crontab: not found'', Timestamp = 1\<rparr>
        \<in> set (elems (SErrors (fst
      (RunScan (NewOrchestrator [probe_P, probe_P2] False) background (ticking [1])))))"
      by (simp only:)
    then show False unfolding s by simp
  qed
qed



end
